theory Spec2Isabelle
  imports Complex_Main
begin

section \<open>Data model\<close>

text \<open>
  The \<open>Thread\<close> component exists in three variants: \<open>src/components/thread/index.tsx\<close>
  (plain text input), \<open>part_000\<close> (text plus attachment blocks) and \<open>part_001\<close>
  (plain text plus the lucky-prompt button). The three share the hooks and differ in
  their submit handlers, which are all embedded below.

  A message follows the \<open>Message\<close> union of the SDK: \<open>type\<close> is the role, \<open>content\<close> is
  a string or a list of content blocks, an \<open>ai\<close> message carries \<open>tool_calls\<close> (absent is the
  empty list) and a \<open>tool\<close> message carries \<open>tool_call_id\<close>.
\<close>

datatype message_type = Human | Ai | Tool | System

datatype content_block = TextBlock string | Attachment string

datatype content = Str string | Blocks "content_block list" | Undefined

record tool_call =
  callId :: string
  tc_name :: string
  arguments :: string

record message =
  msg_id :: string
  msg_type :: message_type
  msg_content :: content
  tool_calls :: "tool_call list"
  tool_call_id :: "string option"

record ui_message =
  ui_id :: string
  ui_name :: string
  ui_props :: string

text \<open>
  The artifact context is a JS object \<open>Record<string, unknown>\<close>: an association list
  of its own enumerable keys, so that \<open>Object.keys(c).length\<close> is the length of the key list.
\<close>

type_synonym artifact_ctx = "(string \<times> string) list"

text \<open>
  \<open>stream.values\<close>, which is also the argument \<open>prev\<close> of \<open>optimisticValues\<close>. Every field
  may be \<open>undefined\<close>.
\<close>

record state_values =
  sv_messages :: "message list option"
  sv_ui :: "ui_message list option"
  sv_ctx :: "artifact_ctx option"

text \<open>\<open>stream.error\<close> is read as \<open>(stream.error as any).message\<close>, which may be undefined.\<close>

datatype stream_error = StreamError "string option"

text \<open>What the component reads from \<open>useStreamContext()\<close> in one render.\<close>

record stream_ctx =
  messages :: "message list"
  isLoading :: bool
  error :: "stream_error option"
  vals :: state_values

text \<open>
  The component's own cells: \<open>useState\<close> (\<open>input\<close>, \<open>firstTokenReceived\<close>), \<open>useRef\<close>
  (\<open>lastError\<close>, \<open>prevMessageLength\<close>), the query state \<open>threadId\<close>, the artifact hooks, and
  in \<open>part_000\<close> the attachment list \<open>contentBlocks\<close> of \<open>useFileUpload\<close>.
\<close>

record thread_state =
  input :: string
  contentBlocks :: "content_block list"
  firstTokenReceived :: bool
  lastError :: "string option"
  prevMessageLength :: nat
  artifactContext :: artifact_ctx
  artifactOpen :: bool
  threadId :: "string option"

text \<open>The state of a freshly mounted component.\<close>

definition init_state :: thread_state where
  "init_state =
     \<lparr>input = [], contentBlocks = [], firstTokenReceived = False, lastError = None,
      prevMessageLength = 0, artifactContext = [], artifactOpen = False, threadId = None\<rparr>"

section \<open>Error deduplicator\<close>

text \<open>JS truthiness of the error's message: \<open>undefined\<close> and the empty string are falsy.\<close>

definition falsy :: "string option \<Rightarrow> bool" where
  "falsy m = (case m of None \<Rightarrow> True | Some t \<Rightarrow> t = [])"

text \<open>
  The effect on \<open>[stream.error]\<close>. It returns the new state and the message of the toast it
  raises, if any. A missing error clears the cell; a falsy message or the message already in
  the cell returns early; otherwise the cell is written first and the toast raised. The
  \<open>catch\<close> around it swallows what the toast call may throw, after the cell was written; the
  result records the toast the effect asks for.
\<close>

fun errorEffect :: "stream_error option \<Rightarrow> thread_state \<Rightarrow> thread_state \<times> string option" where
  "errorEffect None st = (st\<lparr>lastError := None\<rparr>, None)"
| "errorEffect (Some (StreamError m)) st =
     (if falsy m \<or> lastError st = m then (st, None)
      else (st\<lparr>lastError := m\<rparr>, m))"

text \<open>
  A run of the effect over the errors of successive snapshots (each snapshot carries a new
  error object, so the effect runs for each), collecting the toasts in order.
\<close>

fun deliverErrors :: "stream_error option list \<Rightarrow> thread_state \<Rightarrow> thread_state \<times> string list" where
  "deliverErrors [] st = (st, [])"
| "deliverErrors (e # es) st =
     (case errorEffect e st of
        (st1, t) \<Rightarrow>
          (case deliverErrors es st1 of
             (st2, ts) \<Rightarrow> (st2, (case t of None \<Rightarrow> [] | Some m \<Rightarrow> [m]) @ ts)))"

definition err :: "string \<Rightarrow> stream_error option" where
  "err t = Some (StreamError (Some t))"

section \<open>Strings\<close>

text \<open>
  \<open>String.prototype.trim\<close> removes leading and trailing white space and line terminators.
  Characters are the code units below 256: TAB, LF, VT, FF, CR, SP and NBSP are the white
  space among them.
\<close>

definition is_whitespace :: "char \<Rightarrow> bool" where
  "is_whitespace c = (of_char c \<in> {9, 10, 11, 12, 13, 32, 160 :: nat})"

definition trim :: "string \<Rightarrow> string" where
  "trim t = rev (dropWhile is_whitespace (rev (dropWhile is_whitespace t)))"

section \<open>Tool-response reconciler\<close>

text \<open>
  What the handlers draw from outside: \<open>uuidv4()\<close>, as a supply of identifiers indexed by
  the number of the call within one handler run, and the fixed content of a synthetic tool
  result.
\<close>

record runtime =
  uuidv4 :: "nat \<Rightarrow> string"
  placeholder :: content

text \<open>
  Modelled from the spec: the outstanding set of \<open>ensureToolCallsHaveResponses\<close>, which the
  components import from \<open>lib/ensure-tool-responses\<close>, a file that is not among the sources.
  The set holds call ids and keeps them in the order in which they entered it; adding an
  id that it holds changes nothing.
\<close>

definition add_id :: "string \<Rightarrow> string list \<Rightarrow> string list" where
  "add_id c out = (if c \<in> set out then out else out @ [c])"

text \<open>
  Modelled from the spec: the scan of \<open>ensureToolCallsHaveResponses\<close> (missing as said
  above). The sequence is scanned once; an \<open>ai\<close> message adds the ids of its tool calls to
  the outstanding set; a \<open>tool\<close> message removes its call id from the set.
\<close>

fun outstanding :: "string list \<Rightarrow> message list \<Rightarrow> string list" where
  "outstanding out [] = out"
| "outstanding out (m # ms) =
     (case msg_type m of
        Ai \<Rightarrow> outstanding (fold add_id (map callId (tool_calls m)) out) ms
      | Tool \<Rightarrow> outstanding (case tool_call_id m of None \<Rightarrow> out
                               | Some c \<Rightarrow> removeAll c out) ms
      | Human \<Rightarrow> outstanding out ms
      | System \<Rightarrow> outstanding out ms)"

text \<open>
  Modelled from the spec: the synthetic tool result for the \<open>k\<close>-th outstanding id, a \<open>tool\<close>
  message with a freshly minted id, the call id and the fixed placeholder content.
\<close>

definition synthetic :: "runtime \<Rightarrow> nat \<Rightarrow> string \<Rightarrow> message" where
  "synthetic rt k c =
     \<lparr>msg_id = uuidv4 rt (Suc k), msg_type = Tool, msg_content = placeholder rt,
      tool_calls = [], tool_call_id = Some c\<rparr>"

text \<open>
  Modelled from the spec: \<open>ensureToolCallsHaveResponses\<close> itself (missing as said above):
  every id that remains in the outstanding set at the end of the scan yields one synthetic
  result, in the order of the set.
\<close>

definition ensureToolCallsHaveResponses :: "runtime \<Rightarrow> message list \<Rightarrow> message list" where
  "ensureToolCallsHaveResponses rt ms =
     map (\<lambda>(k, c). synthetic rt k c) (enumerate 0 (outstanding [] ms))"

text \<open>
  The reconciler's contract in the words of the specification, to compare the scan with: a
  tool call is answered when a later \<open>tool\<close> message carries its call id, and the unanswered
  calls are those emitted by \<open>ai\<close> messages and not answered by any later message, in call order.
\<close>

definition answered_later :: "tool_call \<Rightarrow> message list \<Rightarrow> bool" where
  "answered_later tc later =
     list_ex (\<lambda>m. msg_type m = Tool \<and> tool_call_id m = Some (callId tc)) later"

fun unanswered :: "message list \<Rightarrow> tool_call list" where
  "unanswered [] = []"
| "unanswered (m # ms) =
     (if msg_type m = Ai then filter (\<lambda>tc. \<not> answered_later tc ms) (tool_calls m) else [])
     @ unanswered ms"

text \<open>Call ids in call order: each id once, where it occurs first.\<close>

definition in_call_order :: "string list \<Rightarrow> string list" where
  "in_call_order cs = rev (remdups (rev cs))"

text \<open>The tool results of a sequence that carry a given call id, and how many there are.\<close>

definition matching_results :: "string \<Rightarrow> message list \<Rightarrow> nat" where
  "matching_results c ms =
     length (filter (\<lambda>m. msg_type m = Tool \<and> tool_call_id m = Some c) ms)"

text \<open>The part of an increment that precedes its first human message.\<close>

definition before_human :: "message list \<Rightarrow> message list" where
  "before_human ms = takeWhile (\<lambda>m. msg_type m \<noteq> Human) ms"

section \<open>Submission\<close>

text \<open>
  The argument pair of \<open>stream.submit\<close>: the increment (\<open>messages\<close>, \<open>context\<close>) and the
  options (\<open>streamMode\<close>, \<open>optimisticValues\<close>).
\<close>

record submission =
  sub_messages :: "message list"
  sub_ctx :: "artifact_ctx option"
  streamMode :: "string list"
  optimisticValues :: "state_values \<Rightarrow> state_values"

text \<open>\<open>prev.messages ?? []\<close>\<close>

definition messages_or_empty :: "state_values \<Rightarrow> message list" where
  "messages_or_empty prev = (case sv_messages prev of None \<Rightarrow> [] | Some ms \<Rightarrow> ms)"

text \<open>
  The block that every handler repeats word for word once it has built \<open>newHumanMessage\<close>:
  reconcile \<open>stream.messages\<close>, take the artifact context when it has a key, and call
  \<open>stream.submit\<close>. The projection spreads \<open>prev\<close> and then writes \<open>context\<close> and \<open>messages\<close>.
\<close>

definition submitTurn :: "runtime \<Rightarrow> stream_ctx \<Rightarrow> thread_state \<Rightarrow> message \<Rightarrow> submission" where
  "submitTurn rt s st newHumanMessage =
     (let toolMessages = ensureToolCallsHaveResponses rt (messages s);
          ctx = (if length (map fst (artifactContext st)) > 0
                 then Some (artifactContext st) else None)
      in \<lparr>sub_messages = toolMessages @ [newHumanMessage],
          sub_ctx = ctx,
          streamMode = [''values''],
          optimisticValues = (\<lambda>prev. prev
            \<lparr>sv_ctx := ctx,
             sv_messages := Some (messages_or_empty prev @ toolMessages @ [newHumanMessage])\<rparr>)\<rparr>)"

text \<open>
  \<open>handleSubmit\<close> of \<open>index.tsx\<close> (and of \<open>part_001\<close>): returns early on an input that trims
  to nothing or while loading; otherwise resets the first-token flag, submits, and clears
  the input. The result is the new state and the submission handed to the channel, if any.
\<close>

definition handleSubmit ::
  "runtime \<Rightarrow> stream_ctx \<Rightarrow> thread_state \<Rightarrow> thread_state \<times> submission option" where
  "handleSubmit rt s st =
     (if length (trim (input st)) = 0 \<or> isLoading s then (st, None)
      else
        let newHumanMessage =
              \<lparr>msg_id = uuidv4 rt 0, msg_type = Human, msg_content = Str (trim (input st)),
               tool_calls = [], tool_call_id = None\<rparr>
        in (st\<lparr>firstTokenReceived := False, input := []\<rparr>,
            Some (submitTurn rt s st newHumanMessage)))"

text \<open>
  \<open>handleSubmit\<close> of \<open>part_000\<close>: the guard also looks at the attachment list, the content is
  a list of blocks (the text block holds the input as typed), and the attachments are
  cleared with the input.
\<close>

definition handleSubmit_blocks ::
  "runtime \<Rightarrow> stream_ctx \<Rightarrow> thread_state \<Rightarrow> thread_state \<times> submission option" where
  "handleSubmit_blocks rt s st =
     (if (length (trim (input st)) = 0 \<and> length (contentBlocks st) = 0) \<or> isLoading s
      then (st, None)
      else
        let newHumanMessage =
              \<lparr>msg_id = uuidv4 rt 0, msg_type = Human,
               msg_content = Blocks
                 ((if length (trim (input st)) > 0 then [TextBlock (input st)] else [])
                  @ contentBlocks st),
               tool_calls = [], tool_call_id = None\<rparr>
        in (st\<lparr>firstTokenReceived := False, input := [], contentBlocks := []\<rparr>,
            Some (submitTurn rt s st newHumanMessage)))"

text \<open>The increment a handler run dispatched: empty when it dispatched nothing.\<close>

definition dispatched :: "thread_state \<times> submission option \<Rightarrow> message list" where
  "dispatched r = (case snd r of None \<Rightarrow> [] | Some sub \<Rightarrow> sub_messages sub)"

text \<open>The projection a handler run supplied, applied to \<open>prev\<close>: \<open>prev\<close> itself when none.\<close>

definition projected :: "thread_state \<times> submission option \<Rightarrow> state_values \<Rightarrow> state_values" where
  "projected r prev = (case snd r of None \<Rightarrow> prev | Some sub \<Rightarrow> optimisticValues sub prev)"

section \<open>Numbers\<close>

text \<open>
  The non-negative finite values of the Number type (IEEE 754 binary64), as a significand
  and a binary exponent: the number \<open>mant * 2 ^ expo\<close>, with a significand below \<open>2 ^ 53\<close>, an
  exponent of at least \<open>-1074\<close> and a value below \<open>2 ^ 1024\<close>.
\<close>

record double =
  mant :: nat
  expo :: int

definition dval :: "double \<Rightarrow> real" where
  "dval d = (if 0 \<le> expo d then real (mant d) * 2 ^ nat (expo d)
             else real (mant d) / 2 ^ nat (- expo d))"

definition is_double :: "double \<Rightarrow> bool" where
  "is_double d = (mant d < 2 ^ 53 \<and> - 1074 \<le> expo d \<and> dval d < 2 ^ 1024)"

text \<open>The number of binary digits of a natural number.\<close>

fun bits :: "nat \<Rightarrow> nat" where
  "bits n = (if n = 0 then 0 else Suc (bits (n div 2)))"

declare bits.simps [simp del]

text \<open>\<open>M / 2 ^ k\<close> rounded to the nearest natural number, a tie to the even one.\<close>

definition round_shift :: "nat \<Rightarrow> nat \<Rightarrow> nat" where
  "round_shift M k =
     (let q = M div 2 ^ k; r = M mod 2 ^ k
      in if 2 ^ k < 2 * r \<or> (2 * r = 2 ^ k \<and> odd q) then q + 1 else q)"

text \<open>
  The double nearest to the exact number \<open>M * 2 ^ E\<close>, ties to even: the digits below the
  53rd, and those below \<open>2 ^ -1074\<close>, are rounded away; a result of \<open>2 ^ 1024\<close> or more is
  infinity, which is \<open>None\<close> here.
\<close>

definition fl_round :: "nat \<Rightarrow> int \<Rightarrow> double option" where
  "fl_round M E =
     (let k = max (bits M - 53) (nat (- 1074 - E));
          m = round_shift M k;
          d = (if m = 2 ^ 53 then \<lparr>mant = 2 ^ 52, expo = E + int k + 1\<rparr>
               else \<lparr>mant = m, expo = E + int k\<rparr>)
      in if 2 ^ 1024 \<le> dval d then None else Some d)"

text \<open>The product of two numbers, as \<open>*\<close> computes it.\<close>

definition fl_mul :: "double \<Rightarrow> double \<Rightarrow> double option" where
  "fl_mul a b = fl_round (mant a * mant b) (expo a + expo b)"

text \<open>An array length as a number: exact, lengths are below \<open>2 ^ 32\<close>.\<close>

definition number_of_nat :: "nat \<Rightarrow> double" where
  "number_of_nat n = \<lparr>mant = n, expo = 0\<rparr>"

text \<open>\<open>Math.floor\<close> of a finite non-negative number, as an integer.\<close>

definition fl_floor :: "double \<Rightarrow> int" where
  "fl_floor d = (if 0 \<le> expo d then int (mant d * 2 ^ nat (expo d))
                 else int (mant d div 2 ^ nat (- expo d)))"

section \<open>Lucky prompt (\<open>part_001\<close>)\<close>

definition luckyPrompts :: "string list" where
  "luckyPrompts =
     [''Create a beautiful landing page for a coffee shop'',
      ''Design a dashboard for tracking fitness goals'',
      ''Build a portfolio website for a photographer'',
      ''Make a booking system for a restaurant'',
      ''Create a weather app with animations'',
      ''Design a task management tool'',
      ''Build a recipe sharing platform'',
      ''Create a music player interface'',
      ''Design a travel booking website'',
      ''Make a social media profile page'',
      ''Create a modern e-commerce product page'',
      ''Design a meditation and mindfulness app'',
      ''Build a real estate listing website'',
      ''Create a cryptocurrency trading dashboard'',
      ''Design a food delivery app interface'',
      ''Make a workout tracking application'',
      ''Create a news aggregator website'',
      ''Design a video streaming platform'',
      ''Build a job board and career portal'',
      ''Create a plant care and garden tracker'']"

text \<open>Reading a JS array at an integer index: \<open>undefined\<close> outside its range.\<close>

definition js_index :: "'a list \<Rightarrow> int \<Rightarrow> 'a option" where
  "js_index xs i = (if 0 \<le> i \<and> i < int (length xs) then Some (xs ! nat i) else None)"

text \<open>
  The index drawn, \<open>Math.floor(Math.random() * luckyPrompts.length)\<close>: the product is the
  double nearest to the exact one, and the floor of infinity is no index.
\<close>

definition luckyIndex :: "double \<Rightarrow> int option" where
  "luckyIndex random =
     map_option fl_floor (fl_mul random (number_of_nat (length luckyPrompts)))"

text \<open>
  \<open>handleLuckyClick\<close>. \<open>random\<close> is the number \<open>Math.random()\<close> returned. The handler returns
  while loading; otherwise it resets the first-token flag and submits the prompt at the
  drawn index. It never calls \<open>setInput\<close>.
\<close>

definition handleLuckyClick ::
  "runtime \<Rightarrow> double \<Rightarrow> stream_ctx \<Rightarrow> thread_state \<Rightarrow> thread_state \<times> submission option" where
  "handleLuckyClick rt random s st =
     (if isLoading s then (st, None)
      else
        let randomIndex = luckyIndex random;
            randomPrompt = (case randomIndex of None \<Rightarrow> None
                            | Some i \<Rightarrow> js_index luckyPrompts i);
            newHumanMessage =
              \<lparr>msg_id = uuidv4 rt 0, msg_type = Human,
               msg_content = (case randomPrompt of None \<Rightarrow> Undefined | Some p \<Rightarrow> Str p),
               tool_calls = [], tool_call_id = None\<rparr>
        in (st\<lparr>firstTokenReceived := False\<rparr>,
            Some (submitTurn rt s st newHumanMessage)))"

section \<open>Thread switch, first token and the main view\<close>

text \<open>
  \<open>setThreadId\<close>: writes the query state, closes the artifact and resets its context.
\<close>

definition setThreadId :: "string option \<Rightarrow> thread_state \<Rightarrow> thread_state" where
  "setThreadId i st = st\<lparr>threadId := i, artifactOpen := False, artifactContext := []\<rparr>"

text \<open>
  The effect on \<open>[messages]\<close>: the flag is set when the length differs from the one seen
  last, the sequence is not empty and its last element is an \<open>ai\<close> message; the length is
  recorded in every case.
\<close>

definition messagesEffect :: "message list \<Rightarrow> thread_state \<Rightarrow> thread_state" where
  "messagesEffect ms st =
     (let st1 = (if length ms \<noteq> prevMessageLength st \<and> length ms \<noteq> 0
                    \<and> msg_type (ms ! (length ms - 1)) = Ai
                 then st\<lparr>firstTokenReceived := True\<rparr> else st)
      in st1\<lparr>prevMessageLength := length ms\<rparr>)"

text \<open>The full-screen marker test, \<open>ui.name === "llm-ui"\<close>.\<close>

definition is_marker :: "ui_message \<Rightarrow> bool" where
  "is_marker u = (ui_name u = ''llm-ui'')"

text \<open>
  \<open>FullScreenCustomComponents\<close>: the marker payloads of \<open>values.ui\<close> (none when \<open>ui\<close> is
  undefined); \<open>null\<close> when there is none, otherwise the element rendered from the last one.
  The result is the payload handed to \<open>LoadExternalComponent\<close>.
\<close>

definition FullScreenCustomComponents :: "state_values \<Rightarrow> ui_message option" where
  "FullScreenCustomComponents v =
     (let customComponents = (case sv_ui v of None \<Rightarrow> [] | Some us \<Rightarrow> filter is_marker us)
      in if length customComponents = 0 then None
         else Some (customComponents ! (length customComponents - 1)))"

text \<open>\<open>values.ui\<close> in arrival order, empty when undefined.\<close>

definition ui_or_empty :: "state_values \<Rightarrow> ui_message list" where
  "ui_or_empty v = (case sv_ui v of None \<Rightarrow> [] | Some us \<Rightarrow> us)"

text \<open>\<open>hasCustomUI\<close>: \<open>stream.values?.ui?.some(...) || false\<close>.\<close>

definition hasCustomUI :: "stream_ctx \<Rightarrow> bool" where
  "hasCustomUI s = (case sv_ui (vals s) of None \<Rightarrow> False | Some us \<Rightarrow> list_ex is_marker us)"




section \<open>Runs of the view\<close>

text \<open>
  What happens to a mounted component within one conversation. The channel delivers a
  snapshot (messages appended to the sequence, which only grows; the loading flag; the UI
  payloads) or an error; the user types, attaches blocks, or triggers one of the three
  submit handlers; the artifact writes its context.
\<close>

datatype event =
    Delivered "message list" bool "ui_message list option"
  | ErrorDelivered "stream_error option"
  | Typed string
  | Attached "content_block list"
  | ContextSet artifact_ctx
  | Submitted runtime
  | SubmittedBlocks runtime
  | LuckyClicked runtime double

text \<open>
  The component mounts on a stream that holds some messages and is not loading; the
  effect on \<open>[messages]\<close> runs once.
\<close>

definition mount :: "message list \<Rightarrow> stream_ctx \<times> thread_state" where
  "mount ms =
     (\<lparr>messages = ms, isLoading = False, error = None,
       vals = \<lparr>sv_messages = Some ms, sv_ui = None, sv_ctx = None\<rparr>\<rparr>,
      messagesEffect ms init_state)"

text \<open>
  Modelled from the spec: what the channel does with a submission (the stream provider is
  not among the sources). It applies the projection to its values at once, within the
  same turn as the handler, and reports the submission in flight; the component renders
  the projected messages and the effect on \<open>[messages]\<close> runs. A handler that returned early
  changes nothing.
\<close>

definition afterSubmit ::
  "stream_ctx \<Rightarrow> thread_state \<times> submission option \<Rightarrow> stream_ctx \<times> thread_state" where
  "afterSubmit s r =
     (case snd r of
        None \<Rightarrow> (s, fst r)
      | Some sub \<Rightarrow>
          let v = optimisticValues sub (vals s);
              s1 = s\<lparr>messages := messages_or_empty v, isLoading := True, vals := v\<rparr>
          in (s1, messagesEffect (messages s1) (fst r)))"

text \<open>
  Modelled from the spec: a delivered snapshot appends to the message sequence (messages
  are immutable and the sequence is append-only) and the effect on \<open>[messages]\<close> runs; a
  delivered error runs the error effect. The other events are the component's own.
\<close>

fun step :: "event \<Rightarrow> stream_ctx \<times> thread_state \<Rightarrow> stream_ctx \<times> thread_state" where
  "step (Delivered extra l ui) (s, st) =
     (let ms = messages s @ extra
      in (s\<lparr>messages := ms, isLoading := l,
            vals := (vals s)\<lparr>sv_messages := Some ms, sv_ui := ui\<rparr>\<rparr>,
          messagesEffect ms st))"
| "step (ErrorDelivered e) (s, st) = (s\<lparr>error := e\<rparr>, fst (errorEffect e st))"
| "step (Typed t) (s, st) = (s, st\<lparr>input := t\<rparr>)"
| "step (Attached bs) (s, st) = (s, st\<lparr>contentBlocks := bs\<rparr>)"
| "step (ContextSet c) (s, st) = (s, st\<lparr>artifactContext := c\<rparr>)"
| "step (Submitted rt) (s, st) = afterSubmit s (handleSubmit rt s st)"
| "step (SubmittedBlocks rt) (s, st) = afterSubmit s (handleSubmit_blocks rt s st)"
| "step (LuckyClicked rt random) (s, st) = afterSubmit s (handleLuckyClick rt random s st)"

definition run :: "message list \<Rightarrow> event list \<Rightarrow> stream_ctx \<times> thread_state" where
  "run ms es = foldl (\<lambda>v e. step e v) (mount ms) es"



section \<open>Concrete conversations\<close>

text \<open>
  Inputs on which the definitions are evaluated below: an identifier supply, the messages
  of a short conversation (a human turn, an assistant turn without and with tool calls),
  a stream that holds given messages and is not loading, and UI payloads with and without
  the full-screen marker.
\<close>

definition ex_rt :: runtime where
  "ex_rt = \<lparr>uuidv4 = (\<lambda>k. replicate (Suc k) CHR ''u''), placeholder = Str ''skipped''\<rparr>"

definition H0 :: message where
  "H0 = \<lparr>msg_id = ''h0'', msg_type = Human, msg_content = Str ''draw a cat'',
          tool_calls = [], tool_call_id = None\<rparr>"

definition AI0 :: message where
  "AI0 = \<lparr>msg_id = ''a0'', msg_type = Ai, msg_content = Str ''ok'',
          tool_calls = [], tool_call_id = None\<rparr>"

definition call_c1 :: tool_call where
  "call_c1 = \<lparr>callId = ''c1'', tc_name = ''draw'', arguments = ''cat''\<rparr>"

definition AI_call :: message where
  "AI_call = AI0\<lparr>tool_calls := [call_c1]\<rparr>"

definition AI_dup :: message where
  "AI_dup = AI0\<lparr>tool_calls := [call_c1, call_c1]\<rparr>"

definition ex_stream :: "message list \<Rightarrow> stream_ctx" where
  "ex_stream ms = \<lparr>messages = ms, isLoading = False, error = None,
      vals = \<lparr>sv_messages = Some ms, sv_ui = None, sv_ctx = None\<rparr>\<rparr>"

text \<open>The human message a handler builds from \<open>ex_rt\<close> with the given text.\<close>

definition human_msg :: "string \<Rightarrow> message" where
  "human_msg t = \<lparr>msg_id = ''u'', msg_type = Human, msg_content = Str t,
      tool_calls = [], tool_call_id = None\<rparr>"

text \<open>The first synthetic result the reconciler builds from \<open>ex_rt\<close> for the call \<open>c1\<close>.\<close>

definition tool_result_c1 :: message where
  "tool_result_c1 = \<lparr>msg_id = ''uu'', msg_type = Tool, msg_content = Str ''skipped'',
      tool_calls = [], tool_call_id = Some ''c1''\<rparr>"

definition ui_A :: ui_message where
  "ui_A = \<lparr>ui_id = ''a'', ui_name = ''llm-ui'', ui_props = ''first''\<rparr>"

definition ui_B :: ui_message where
  "ui_B = \<lparr>ui_id = ''b'', ui_name = ''llm-ui'', ui_props = ''second''\<rparr>"

definition ui_other :: ui_message where
  "ui_other = \<lparr>ui_id = ''o'', ui_name = ''chart'', ui_props = ''x''\<rparr>"

definition ex_values :: "ui_message list \<Rightarrow> state_values" where
  "ex_values us = \<lparr>sv_messages = None, sv_ui = Some us, sv_ctx = None\<rparr>"

text \<open>A previous snapshot that holds two messages and a context of its own.\<close>

definition ex_prev :: state_values where
  "ex_prev = \<lparr>sv_messages = Some [H0, AI0], sv_ui = None, sv_ctx = Some [(''k'', ''v'')]\<rparr>"

text \<open>The double nearest to 0.7, which is \<open>0x1.6666666666666p-1\<close>.\<close>

definition d07 :: double where
  "d07 = \<lparr>mant = 6305039478318694, expo = - 53\<rparr>"


lemmas ex_defs = ex_rt_def H0_def AI0_def call_c1_def AI_call_def AI_dup_def ex_stream_def
  human_msg_def tool_result_c1_def init_state_def ui_A_def ui_B_def ui_other_def
  ex_values_def ex_prev_def

lemmas run_defs = handleSubmit_def handleSubmit_blocks_def submitTurn_def trim_def add_id_def
  is_whitespace_def ensureToolCallsHaveResponses_def synthetic_def dispatched_def
  projected_def before_human_def matching_results_def messages_or_empty_def
  answered_later_def Let_def

lemmas num_defs = luckyIndex_def fl_mul_def fl_round_def number_of_nat_def round_shift_def
  fl_floor_def dval_def is_double_def bits.simps js_index_def luckyPrompts_def

section \<open>The error deduplicator\<close>

lemma errorEffect_falsy:
  "falsy m \<Longrightarrow> errorEffect (Some (StreamError m)) st = (st, None)"
  by simp

text \<open>
  Claim C4. The error texts E1, E1, E2, E1, delivered one per snapshot from an empty cell,
  raise the toasts E1, E2 over the first three deliveries (the second E1 is suppressed) and
  E1, E2, E1 over all four: two notifications, then three.
\<close>

theorem C4_error_dedup_sequence:
  "snd (deliverErrors [err ''E1'', err ''E1'', err ''E2''] (st\<lparr>lastError := None\<rparr>))
     = [''E1'', ''E2'']
   \<and> snd (deliverErrors [err ''E1'', err ''E1'', err ''E2'', err ''E1''] (st\<lparr>lastError := None\<rparr>))
     = [''E1'', ''E2'', ''E1'']
   \<and> lastError (fst (deliverErrors [err ''E1'', err ''E1'', err ''E2'', err ''E1'']
        (st\<lparr>lastError := None\<rparr>))) = Some ''E1''"
  by (simp add: err_def falsy_def)

text \<open>
  Claim C9. An error whose message is undefined or empty raises no toast and leaves the
  whole state, the last-error cell included, as it was; so an error that follows with the
  text already in the cell is still suppressed.
\<close>

theorem C9_falsy_message_keeps_cell:
  "falsy m \<longrightarrow>
     errorEffect (Some (StreamError m)) st = (st, None)
     \<and> (lastError st = Some t \<longrightarrow>
          deliverErrors [Some (StreamError m), err t] st = (st, []))"
  by (simp add: err_def)

theorem C9_falsy_message_keeps_cell_witness:
  "falsy (Some '''')
   \<and> lastError (init_state\<lparr>lastError := Some ''E1''\<rparr>) = Some ''E1''
   \<and> errorEffect (Some (StreamError (Some ''''))) (init_state\<lparr>lastError := Some ''E1''\<rparr>)
       = (init_state\<lparr>lastError := Some ''E1''\<rparr>, None)
   \<and> deliverErrors [Some (StreamError (Some '''')), err ''E1''] (init_state\<lparr>lastError := Some ''E1''\<rparr>)
       = (init_state\<lparr>lastError := Some ''E1''\<rparr>, [])"
  using C9_falsy_message_keeps_cell [of "Some ''''" "init_state\<lparr>lastError := Some ''E1''\<rparr>" "''E1''"]
  by (simp add: falsy_def)

text \<open>
  Claim C3, as stated, fails: \<open>setThreadId\<close> does not touch the cell. After the error E1
  was reported in one conversation and the thread is switched, the cell still holds E1, and
  the same text arriving as the first error of the new conversation raises no toast.
\<close>

theorem C3_counterexample:
  "lastError (setThreadId (Some ''thread-2'') (fst (errorEffect (err ''E1'') init_state))) = Some ''E1''
   \<and> snd (errorEffect (err ''E1'') init_state) = Some ''E1''
   \<and> snd (errorEffect (err ''E1'')
        (setThreadId (Some ''thread-2'') (fst (errorEffect (err ''E1'') init_state)))) = None"
  by (simp add: ex_defs err_def falsy_def setThreadId_def)

text \<open>
  Claim C3, amended. A thread switch writes the thread id, closes the artifact and empties
  the artifact context; it leaves the last-error cell as it was, so the error effect answers
  after the switch as it would have before. The cell is cleared by the error effect alone,
  when a snapshot without an error is delivered.
\<close>

theorem C3_thread_switch_keeps_cell:
  "lastError (setThreadId i st) = lastError st
   \<and> threadId (setThreadId i st) = i
   \<and> artifactContext (setThreadId i st) = []
   \<and> \<not> artifactOpen (setThreadId i st)
   \<and> snd (errorEffect e (setThreadId i st)) = snd (errorEffect e st)
   \<and> lastError (fst (errorEffect None st)) = None"
proof -
  have "snd (errorEffect e (setThreadId i st)) = snd (errorEffect e st)"
    by (cases "(e, st)" rule: errorEffect.cases) (simp_all add: setThreadId_def)
  then show ?thesis by (simp add: setThreadId_def)
qed

section \<open>The reconciler against its contract\<close>

lemma answered_later_Cons:
  "answered_later tc (m # ms) =
     ((msg_type m = Tool \<and> tool_call_id m = Some (callId tc)) \<or> answered_later tc ms)"
  by (simp add: answered_later_def)

text \<open>Filtering the outstanding set commutes with adding ids to it.\<close>

lemma filter_fold_add_id:
  "filter P (fold add_id cs out) = fold add_id (filter P cs) (filter P out)"
  by (induction cs arbitrary: out) (auto simp: add_id_def)

text \<open>
  The scan, started with any outstanding set: its ids that no \<open>tool\<close> message of the
  sequence carries, and then the ids of the unanswered calls of the sequence.
\<close>

lemma outstanding_unanswered:
  "outstanding out ms =
     fold add_id (map callId (unanswered ms))
       (filter (\<lambda>c. \<not> list_ex (\<lambda>m. msg_type m = Tool \<and> tool_call_id m = Some c) ms) out)"
proof (induction ms arbitrary: out)
  case Nil
  show ?case by simp
next
  case (Cons m ms)
  let ?P = "\<lambda>c. \<not> list_ex (\<lambda>m. msg_type m = Tool \<and> tool_call_id m = Some c) ms"
  show ?case
  proof (cases "msg_type m")
    case Ai
    have "map callId (filter (\<lambda>tc. \<not> answered_later tc ms) (tool_calls m))
            = filter ?P (map callId (tool_calls m))"
      by (simp add: filter_map comp_def answered_later_def)
    with Ai show ?thesis
      by (simp add: Cons.IH filter_fold_add_id)
  next
    case Tool
    show ?thesis
    proof (cases "tool_call_id m")
      case None
      with Tool show ?thesis by (simp add: Cons.IH)
    next
      case (Some c0)
      have "filter ?P (removeAll c0 out)
              = filter (\<lambda>c. \<not> (Some c0 = Some c \<or> \<not> ?P c)) out"
        by (induction out) auto
      with Tool Some show ?thesis by (simp add: Cons.IH)
    qed
  qed (simp_all add: Cons.IH)
qed

text \<open>Adding ids one by one to the empty set lists each id where it occurs first.\<close>

lemma fold_add_id_in_call_order: "fold add_id cs [] = in_call_order cs"
proof (induction cs rule: rev_induct)
  case Nil
  show ?case by (simp add: in_call_order_def)
next
  case (snoc c cs)
  have "set (in_call_order cs) = set cs" by (simp add: in_call_order_def)
  with snoc show ?case
    by (auto simp: add_id_def in_call_order_def)
qed

lemma outstanding_is_unanswered:
  "outstanding [] ms = in_call_order (map callId (unanswered ms))"
  by (simp add: outstanding_unanswered fold_add_id_in_call_order)

lemma distinct_in_call_order: "distinct (in_call_order cs)"
  by (simp add: in_call_order_def)

lemma set_in_call_order: "set (in_call_order cs) = set cs"
  by (simp add: in_call_order_def)

lemma map_synthetic_ids:
  "map tool_call_id (map (\<lambda>(k, c). synthetic rt k c) (enumerate n cs)) = map Some cs"
  by (induction cs arbitrary: n) (simp_all add: synthetic_def)

lemma reconciler_ids:
  "map tool_call_id (ensureToolCallsHaveResponses rt ms)
     = map Some (in_call_order (map callId (unanswered ms)))"
  by (simp add: ensureToolCallsHaveResponses_def outstanding_is_unanswered map_synthetic_ids
        del: map_map)

lemma reconciler_length:
  "length (ensureToolCallsHaveResponses rt ms)
     = length (in_call_order (map callId (unanswered ms)))"
  by (simp add: ensureToolCallsHaveResponses_def outstanding_is_unanswered)

lemma reconciler_all_tool:
  "m \<in> set (ensureToolCallsHaveResponses rt ms) \<Longrightarrow>
     msg_type m = Tool \<and> msg_content m = placeholder rt \<and> tool_calls m = []"
  by (auto simp: ensureToolCallsHaveResponses_def synthetic_def)

lemma matching_results_map:
  "(\<And>m. m \<in> set ms \<Longrightarrow> msg_type m = Tool) \<Longrightarrow>
   matching_results c ms = count_list (map tool_call_id ms) (Some c)"
  by (induction ms) (auto simp: matching_results_def)

lemma count_list_map_Some: "count_list (map Some cs) (Some c) = count_list cs c"
  by (induction cs) auto

lemma reconciler_matching:
  "matching_results c (ensureToolCallsHaveResponses rt ms)
     = count_list (in_call_order (map callId (unanswered ms))) c"
  using matching_results_map [of "ensureToolCallsHaveResponses rt ms" c]
  by (simp add: reconciler_all_tool reconciler_ids count_list_map_Some)

lemma count_list_distinct:
  "distinct xs \<Longrightarrow> count_list xs x = (if x \<in> set xs then 1 else 0)"
  by (induction xs) (auto simp: count_list_0_iff)

lemma reconciler_matching_one:
  "matching_results c (ensureToolCallsHaveResponses rt ms)
     = (if c \<in> callId ` set (unanswered ms) then 1 else 0)"
  by (simp add: reconciler_matching count_list_distinct distinct_in_call_order
        set_in_call_order)

lemma before_human_increment:
  "msg_type h = Human \<Longrightarrow>
     before_human (ensureToolCallsHaveResponses rt ms @ [h]) = ensureToolCallsHaveResponses rt ms"
proof -
  assume h: "msg_type h = Human"
  have "\<And>m. m \<in> set (ensureToolCallsHaveResponses rt ms) \<Longrightarrow> msg_type m \<noteq> Human"
    using reconciler_all_tool by fastforce
  then show ?thesis
    using h by (simp add: before_human_def takeWhile_append2)
qed

lemma answered_later_append:
  "answered_later tc (xs @ ys) = (answered_later tc xs \<or> answered_later tc ys)"
  by (auto simp: answered_later_def list_ex_iff)

lemma unanswered_append_tools:
  "(\<And>m. m \<in> set ys \<Longrightarrow> msg_type m = Tool) \<Longrightarrow>
     unanswered (xs @ ys) = filter (\<lambda>tc. \<not> answered_later tc ys) (unanswered xs)"
proof (induction xs)
  case Nil
  then show ?case by (induction ys) auto
next
  case (Cons m xs)
  then show ?case by (auto simp: answered_later_append intro: filter_cong)
qed

lemma answered_by_reconciler:
  "tc \<in> set (unanswered ms) \<Longrightarrow> answered_later tc (ensureToolCallsHaveResponses rt ms)"
proof -
  assume "tc \<in> set (unanswered ms)"
  then have "Some (callId tc) \<in> set (map tool_call_id (ensureToolCallsHaveResponses rt ms))"
    unfolding reconciler_ids by (auto simp: set_in_call_order)
  then obtain m where "m \<in> set (ensureToolCallsHaveResponses rt ms)" "tool_call_id m = Some (callId tc)"
    by auto
  then show ?thesis
    using reconciler_all_tool [of m rt ms] by (auto simp: answered_later_def list_ex_iff)
qed

text \<open>A sequence followed by its own synthetic results needs no further ones.\<close>

lemma reconciled_needs_nothing:
  "ensureToolCallsHaveResponses rt' (ms @ ensureToolCallsHaveResponses rt ms) = []"
proof -
  have "unanswered (ms @ ensureToolCallsHaveResponses rt ms) = []"
    using unanswered_append_tools [of "ensureToolCallsHaveResponses rt ms" ms]
    by (simp add: reconciler_all_tool answered_by_reconciler)
  then show ?thesis
    by (simp add: ensureToolCallsHaveResponses_def outstanding_is_unanswered in_call_order_def)
qed

section \<open>Submission\<close>

lemma handleSubmit_Some:
  "handleSubmit rt s st = (st', Some sub) \<Longrightarrow>
     st' = st\<lparr>firstTokenReceived := False, input := []\<rparr> \<and>
     sub = submitTurn rt s st
             \<lparr>msg_id = uuidv4 rt 0, msg_type = Human, msg_content = Str (trim (input st)),
              tool_calls = [], tool_call_id = None\<rparr>"
  by (auto simp: handleSubmit_def Let_def split: if_splits)

lemma submitTurn_messages:
  "sub_messages (submitTurn rt s st h) = ensureToolCallsHaveResponses rt (messages s) @ [h]"
  by (simp add: submitTurn_def Let_def)

lemma submitTurn_ctx:
  "sub_ctx (submitTurn rt s st h)
     = (if artifactContext st = [] then None else Some (artifactContext st))"
  by (simp add: submitTurn_def Let_def)

lemma submitTurn_projection:
  "sv_messages (optimisticValues (submitTurn rt s st h) prev)
     = Some (messages_or_empty prev @ ensureToolCallsHaveResponses rt (messages s) @ [h])
   \<and> sv_ui (optimisticValues (submitTurn rt s st h) prev) = sv_ui prev
   \<and> sv_ctx (optimisticValues (submitTurn rt s st h) prev) = sub_ctx (submitTurn rt s st h)"
  by (simp add: submitTurn_def Let_def)

text \<open>
  Claim C1. Tool calls are told apart by their call id. Whenever \<open>handleSubmit\<close> dispatches,
  the reconciler's results are \<open>tool\<close> messages with the placeholder content whose call
  ids are those of the unanswered calls (calls emitted by an \<open>ai\<close> message that no later
  \<open>tool\<close> message answers), each id once, in call order; the increment is these results
  followed by the new human message; every unanswered call has exactly one matching result
  before the human message, and an id of no unanswered call has none.
\<close>

theorem C1_reconciler_increment:
  "handleSubmit rt s st = (st', Some sub) \<longrightarrow>
     map tool_call_id (ensureToolCallsHaveResponses rt (messages s))
       = map Some (in_call_order (map callId (unanswered (messages s))))
   \<and> (\<forall>m \<in> set (ensureToolCallsHaveResponses rt (messages s)).
         msg_type m = Tool \<and> msg_content m = placeholder rt)
   \<and> (\<exists>h. msg_type h = Human
         \<and> sub_messages sub = ensureToolCallsHaveResponses rt (messages s) @ [h])
   \<and> before_human (sub_messages sub) = ensureToolCallsHaveResponses rt (messages s)
   \<and> (\<forall>tc \<in> set (unanswered (messages s)).
         matching_results (callId tc) (before_human (sub_messages sub)) = 1)
   \<and> (\<forall>c. c \<notin> callId ` set (unanswered (messages s)) \<longrightarrow>
         matching_results c (before_human (sub_messages sub)) = 0)"
proof
  assume run: "handleSubmit rt s st = (st', Some sub)"
  let ?tm = "ensureToolCallsHaveResponses rt (messages s)"
  let ?h = "\<lparr>msg_id = uuidv4 rt 0, msg_type = Human, msg_content = Str (trim (input st)),
             tool_calls = [], tool_call_id = None\<rparr>"
  have sub: "sub_messages sub = ?tm @ [?h]"
    using handleSubmit_Some [OF run] by (simp add: submitTurn_messages)
  have bh: "before_human (sub_messages sub) = ?tm"
    unfolding sub by (rule before_human_increment) simp
  have one: "\<forall>tc \<in> set (unanswered (messages s)).
         matching_results (callId tc) (before_human (sub_messages sub)) = 1"
    unfolding bh by (simp add: reconciler_matching_one)
  have none: "\<forall>c. c \<notin> callId ` set (unanswered (messages s)) \<longrightarrow>
         matching_results c (before_human (sub_messages sub)) = 0"
    unfolding bh by (simp add: reconciler_matching_one)
  have ex: "\<exists>h. msg_type h = Human \<and> sub_messages sub = ?tm @ [h]"
    using sub by (intro exI [of _ ?h]) simp
  have tool: "\<forall>m \<in> set ?tm. msg_type m = Tool \<and> msg_content m = placeholder rt"
    using reconciler_all_tool by blast
  from reconciler_ids tool ex bh one none
  show "map tool_call_id ?tm = map Some (in_call_order (map callId (unanswered (messages s))))
   \<and> (\<forall>m \<in> set ?tm. msg_type m = Tool \<and> msg_content m = placeholder rt)
   \<and> (\<exists>h. msg_type h = Human \<and> sub_messages sub = ?tm @ [h])
   \<and> before_human (sub_messages sub) = ?tm
   \<and> (\<forall>tc \<in> set (unanswered (messages s)).
         matching_results (callId tc) (before_human (sub_messages sub)) = 1)
   \<and> (\<forall>c. c \<notin> callId ` set (unanswered (messages s)) \<longrightarrow>
         matching_results c (before_human (sub_messages sub)) = 0)"
    by (intro conjI)
qed

text \<open>
  The end-to-end scenario of the specification: the assistant emitted the call \<open>c1\<close>, the
  user submits ``thanks'' without a tool result, and the increment is the synthetic
  result for \<open>c1\<close> followed by the human message. An assistant message that emits \<open>c1\<close>
  twice gets the same increment.
\<close>

theorem C1_reconciler_increment_witness:
  "handleSubmit ex_rt (ex_stream [H0, AI_call]) (init_state\<lparr>input := ''thanks''\<rparr>)
     = (init_state, Some (submitTurn ex_rt (ex_stream [H0, AI_call]) (init_state\<lparr>input := ''thanks''\<rparr>)
          (human_msg ''thanks'')))
   \<and> unanswered (messages (ex_stream [H0, AI_call])) = [call_c1]
   \<and> sub_messages (submitTurn ex_rt (ex_stream [H0, AI_call]) (init_state\<lparr>input := ''thanks''\<rparr>)
          (human_msg ''thanks'')) = [tool_result_c1, human_msg ''thanks'']
   \<and> matching_results ''c1'' (before_human (sub_messages
        (submitTurn ex_rt (ex_stream [H0, AI_call]) (init_state\<lparr>input := ''thanks''\<rparr>)
          (human_msg ''thanks'')))) = 1
   \<and> matching_results ''c2'' (before_human (sub_messages
        (submitTurn ex_rt (ex_stream [H0, AI_call]) (init_state\<lparr>input := ''thanks''\<rparr>)
          (human_msg ''thanks'')))) = 0
   \<and> unanswered (messages (ex_stream [H0, AI_dup])) = [call_c1, call_c1]
   \<and> dispatched (handleSubmit ex_rt (ex_stream [H0, AI_dup]) (init_state\<lparr>input := ''thanks''\<rparr>))
       = [tool_result_c1, human_msg ''thanks'']"
  using C1_reconciler_increment [of ex_rt "ex_stream [H0, AI_call]" "init_state\<lparr>input := ''thanks''\<rparr>"
    init_state "submitTurn ex_rt (ex_stream [H0, AI_call]) (init_state\<lparr>input := ''thanks''\<rparr>)
          (human_msg ''thanks'')"]
  by (simp add: ex_defs run_defs)

text \<open>
  Claim C2. For every previous snapshot \<open>prev\<close>, the projection that \<open>handleSubmit\<close> hands to
  the channel yields \<open>prev.messages\<close> (empty when undefined) followed by the synthetic tool
  results and then the new human message, whose content is the trimmed input; the messages
  of \<open>prev\<close> are a prefix of the result, each at its old position.
\<close>

theorem C2_optimistic_projection:
  "handleSubmit rt s st = (st', Some sub) \<longrightarrow>
     (\<exists>h. msg_type h = Human \<and> msg_content h = Str (trim (input st))
        \<and> sub_messages sub = ensureToolCallsHaveResponses rt (messages s) @ [h]
        \<and> messages_or_empty (optimisticValues sub prev)
            = messages_or_empty prev @ ensureToolCallsHaveResponses rt (messages s) @ [h])
   \<and> length (messages_or_empty (optimisticValues sub prev))
        = length (messages_or_empty prev)
          + length (ensureToolCallsHaveResponses rt (messages s)) + 1
   \<and> take (length (messages_or_empty prev)) (messages_or_empty (optimisticValues sub prev))
        = messages_or_empty prev
   \<and> (\<forall>i < length (messages_or_empty prev).
         messages_or_empty (optimisticValues sub prev) ! i = messages_or_empty prev ! i)"
proof
  assume run: "handleSubmit rt s st = (st', Some sub)"
  let ?h = "\<lparr>msg_id = uuidv4 rt 0, msg_type = Human, msg_content = Str (trim (input st)),
             tool_calls = [], tool_call_id = None\<rparr>"
  let ?tm = "ensureToolCallsHaveResponses rt (messages s)"
  have sub: "sub = submitTurn rt s st ?h"
    using handleSubmit_Some [OF run] by simp
  have proj: "messages_or_empty (optimisticValues sub prev) = messages_or_empty prev @ ?tm @ [?h]"
    unfolding sub using submitTurn_projection [of rt s st ?h prev]
    by (simp add: messages_or_empty_def)
  have ex: "\<exists>h. msg_type h = Human \<and> msg_content h = Str (trim (input st))
        \<and> sub_messages sub = ?tm @ [h]
        \<and> messages_or_empty (optimisticValues sub prev) = messages_or_empty prev @ ?tm @ [h]"
    using proj sub by (intro exI [of _ ?h]) (simp add: submitTurn_messages)
  have len: "length (messages_or_empty (optimisticValues sub prev))
        = length (messages_or_empty prev) + length ?tm + 1"
    by (simp add: proj)
  have tk: "take (length (messages_or_empty prev)) (messages_or_empty (optimisticValues sub prev))
        = messages_or_empty prev"
    by (simp add: proj)
  have nth: "\<forall>i < length (messages_or_empty prev).
         messages_or_empty (optimisticValues sub prev) ! i = messages_or_empty prev ! i"
    by (simp add: proj nth_append)
  from ex len tk nth show "(\<exists>h. msg_type h = Human \<and> msg_content h = Str (trim (input st))
        \<and> sub_messages sub = ?tm @ [h]
        \<and> messages_or_empty (optimisticValues sub prev) = messages_or_empty prev @ ?tm @ [h])
   \<and> length (messages_or_empty (optimisticValues sub prev))
        = length (messages_or_empty prev) + length ?tm + 1
   \<and> take (length (messages_or_empty prev)) (messages_or_empty (optimisticValues sub prev))
        = messages_or_empty prev
   \<and> (\<forall>i < length (messages_or_empty prev).
         messages_or_empty (optimisticValues sub prev) ! i = messages_or_empty prev ! i)"
    by blast
qed

text \<open>
  Spec property P6: ``hello'' submitted on the confirmed sequence \<open>[H0, AI0]\<close> projects to
  \<open>[H0, AI0, H1]\<close> with the content of \<open>H1\<close> being ``hello''.
\<close>

theorem C2_optimistic_projection_witness:
  "handleSubmit ex_rt (ex_stream [H0, AI0]) (init_state\<lparr>input := ''hello''\<rparr>)
     = (init_state, Some (submitTurn ex_rt (ex_stream [H0, AI0]) (init_state\<lparr>input := ''hello''\<rparr>)
          (human_msg ''hello'')))
   \<and> messages_or_empty ex_prev = [H0, AI0]
   \<and> messages_or_empty (optimisticValues
        (submitTurn ex_rt (ex_stream [H0, AI0]) (init_state\<lparr>input := ''hello''\<rparr>) (human_msg ''hello''))
        ex_prev) = [H0, AI0, human_msg ''hello'']
   \<and> take 2 (messages_or_empty (optimisticValues
        (submitTurn ex_rt (ex_stream [H0, AI0]) (init_state\<lparr>input := ''hello''\<rparr>) (human_msg ''hello''))
        ex_prev)) = [H0, AI0]"
  using C2_optimistic_projection [of ex_rt "ex_stream [H0, AI0]" "init_state\<lparr>input := ''hello''\<rparr>"
    init_state "submitTurn ex_rt (ex_stream [H0, AI0]) (init_state\<lparr>input := ''hello''\<rparr>)
          (human_msg ''hello'')" ex_prev]
  by (simp add: ex_defs run_defs)

section \<open>Guards and context of a submission\<close>

lemma trim_empty_iff: "trim t = [] \<longleftrightarrow> (\<forall>c \<in> set t. is_whitespace c)"
proof -
  have "(\<forall>c \<in> set (dropWhile is_whitespace t). is_whitespace c) \<longleftrightarrow> dropWhile is_whitespace t = []"
  proof
    assume all: "\<forall>c \<in> set (dropWhile is_whitespace t). is_whitespace c"
    show "dropWhile is_whitespace t = []"
    proof (rule ccontr)
      assume ne: "dropWhile is_whitespace t \<noteq> []"
      then have "\<not> is_whitespace (hd (dropWhile is_whitespace t))"
        by (rule hd_dropWhile)
      moreover from ne have "hd (dropWhile is_whitespace t) \<in> set (dropWhile is_whitespace t)"
        by simp
      ultimately show False using all by blast
    qed
  qed (auto dest: set_dropWhileD)
  then show ?thesis
    by (simp add: trim_def dropWhile_eq_Nil_conv)
qed

text \<open>
  Claim C5. Both submit handlers return without dispatching and leave the state as it was
  when the input is empty or white space only and there is no attachment, and when the
  stream is loading. The handler of \<open>index.tsx\<close>, which has no attachments, does so for
  every input that is empty or white space only.
\<close>

theorem C5_submit_guards:
  "(((\<forall>c \<in> set (input st). is_whitespace c) \<and> contentBlocks st = []) \<or> isLoading s \<longrightarrow>
      handleSubmit rt s st = (st, None) \<and> handleSubmit_blocks rt s st = (st, None))
   \<and> ((\<forall>c \<in> set (input st). is_whitespace c) \<longrightarrow> handleSubmit rt s st = (st, None))"
  by (auto simp: handleSubmit_def handleSubmit_blocks_def trim_empty_iff)

text \<open>
  Spec property P4: the empty input while not loading, and ``hi'' while loading, dispatch
  nothing.
\<close>

theorem C5_submit_guards_witness:
  "\<not> isLoading (ex_stream [H0, AI0])
   \<and> handleSubmit ex_rt (ex_stream [H0, AI0]) (init_state\<lparr>input := ''''\<rparr>) = (init_state\<lparr>input := ''''\<rparr>, None)
   \<and> handleSubmit_blocks ex_rt (ex_stream [H0, AI0]) (init_state\<lparr>input := ''''\<rparr>) = (init_state\<lparr>input := ''''\<rparr>, None)
   \<and> handleSubmit ex_rt (ex_stream [H0, AI0]) (init_state\<lparr>input := '' ''\<rparr>) = (init_state\<lparr>input := '' ''\<rparr>, None)
   \<and> isLoading ((ex_stream [H0])\<lparr>isLoading := True\<rparr>)
   \<and> handleSubmit ex_rt ((ex_stream [H0])\<lparr>isLoading := True\<rparr>) (init_state\<lparr>input := ''hi''\<rparr>)
       = (init_state\<lparr>input := ''hi''\<rparr>, None)
   \<and> handleSubmit_blocks ex_rt ((ex_stream [H0])\<lparr>isLoading := True\<rparr>) (init_state\<lparr>input := ''hi''\<rparr>)
       = (init_state\<lparr>input := ''hi''\<rparr>, None)"
  using C5_submit_guards [of "init_state\<lparr>input := ''''\<rparr>" "ex_stream [H0, AI0]" ex_rt]
    C5_submit_guards [of "init_state\<lparr>input := '' ''\<rparr>" "ex_stream [H0, AI0]" ex_rt]
    C5_submit_guards [of "init_state\<lparr>input := ''hi''\<rparr>" "(ex_stream [H0])\<lparr>isLoading := True\<rparr>" ex_rt]
  by (simp add: ex_defs is_whitespace_def)

text \<open>
  Claim C7, as stated, fails in its last part: the projection spreads \<open>prev\<close> and then
  writes \<open>context\<close>, also when that is undefined. With an empty artifact context and a
  previous snapshot that carries a context, the projected snapshot carries none.
\<close>

theorem C7_counterexample:
  "artifactContext (init_state\<lparr>input := ''hello''\<rparr>) = []
   \<and> sv_ctx ex_prev = Some [(''k'', ''v'')]
   \<and> sv_ctx (projected (handleSubmit ex_rt (ex_stream [H0, AI0]) (init_state\<lparr>input := ''hello''\<rparr>)) ex_prev)
       = None"
  by (simp add: ex_defs run_defs)

text \<open>
  Claim C7, amended. Whenever \<open>handleSubmit\<close> dispatches, the increment carries the
  artifact context if and only if it has at least one key, and the projection's context
  field is the increment's: the artifact context when it has a key, undefined when it has
  none, whatever the previous snapshot carried.
\<close>

theorem C7_context_attachment:
  "handleSubmit rt s st = (st', Some sub) \<longrightarrow>
     sub_ctx sub = (if artifactContext st = [] then None else Some (artifactContext st))
   \<and> sv_ctx (optimisticValues sub prev) = sub_ctx sub
   \<and> ((sub_ctx sub = None) = (artifactContext st = []))"
proof
  assume run: "handleSubmit rt s st = (st', Some sub)"
  let ?h = "\<lparr>msg_id = uuidv4 rt 0, msg_type = Human, msg_content = Str (trim (input st)),
             tool_calls = [], tool_call_id = None\<rparr>"
  have sub: "sub = submitTurn rt s st ?h"
    using handleSubmit_Some [OF run] by simp
  show "sub_ctx sub = (if artifactContext st = [] then None else Some (artifactContext st))
   \<and> sv_ctx (optimisticValues sub prev) = sub_ctx sub
   \<and> ((sub_ctx sub = None) = (artifactContext st = []))"
    unfolding sub using submitTurn_projection [of rt s st ?h prev]
    by (simp add: submitTurn_ctx)
qed

theorem C7_context_attachment_witness:
  "handleSubmit ex_rt (ex_stream [H0, AI0]) (init_state\<lparr>input := ''hello'', artifactContext := [(''a'', ''1'')]\<rparr>)
     = (init_state\<lparr>artifactContext := [(''a'', ''1'')]\<rparr>,
        Some (submitTurn ex_rt (ex_stream [H0, AI0])
          (init_state\<lparr>input := ''hello'', artifactContext := [(''a'', ''1'')]\<rparr>) (human_msg ''hello'')))
   \<and> sub_ctx (submitTurn ex_rt (ex_stream [H0, AI0])
          (init_state\<lparr>input := ''hello'', artifactContext := [(''a'', ''1'')]\<rparr>) (human_msg ''hello''))
       = Some [(''a'', ''1'')]
   \<and> sv_ctx (optimisticValues (submitTurn ex_rt (ex_stream [H0, AI0])
          (init_state\<lparr>input := ''hello'', artifactContext := [(''a'', ''1'')]\<rparr>) (human_msg ''hello'')) ex_prev)
       = Some [(''a'', ''1'')]"
  using C7_context_attachment [of ex_rt "ex_stream [H0, AI0]"
    "init_state\<lparr>input := ''hello'', artifactContext := [(''a'', ''1'')]\<rparr>"
    "init_state\<lparr>artifactContext := [(''a'', ''1'')]\<rparr>"
    "submitTurn ex_rt (ex_stream [H0, AI0])
          (init_state\<lparr>input := ''hello'', artifactContext := [(''a'', ''1'')]\<rparr>) (human_msg ''hello'')"
    ex_prev]
  by (simp add: ex_defs run_defs)

section \<open>Full-screen selector\<close>

lemma selector_last:
  "FullScreenCustomComponents v =
     (if filter is_marker (ui_or_empty v) = [] then None
      else Some (last (filter is_marker (ui_or_empty v))))"
  by (simp add: FullScreenCustomComponents_def ui_or_empty_def Let_def last_conv_nth
           split: option.splits)

lemma last_filter_split:
  "filter P xs \<noteq> [] \<Longrightarrow>
     \<exists>pre post. xs = pre @ last (filter P xs) # post \<and> P (last (filter P xs)) \<and> \<not> list_ex P post"
proof (induction xs rule: rev_induct)
  case Nil
  then show ?case by simp
next
  case (snoc x xs)
  show ?case
  proof (cases "P x")
    case True
    then show ?thesis by (intro exI [of _ xs] exI [of _ "[]"]) simp
  next
    case False
    with snoc.prems have "filter P xs \<noteq> []" by simp
    from snoc.IH [OF this] obtain pre post where
      "xs = pre @ last (filter P xs) # post" "P (last (filter P xs))" "\<not> list_ex P post"
      by blast
    with False show ?thesis
      by (intro exI [of _ pre] exI [of _ "post @ [x]"]) (simp add: list_ex_iff)
  qed
qed

lemma hasCustomUI_selector:
  "hasCustomUI s = (FullScreenCustomComponents (vals s) \<noteq> None)"
  by (auto simp: hasCustomUI_def selector_last ui_or_empty_def filter_empty_conv list_ex_iff
            split: option.splits)

text \<open>
  Claim C6. The selector, a function of the snapshot alone, returns null exactly when no
  payload carries the marker name; it returns a payload \<open>p\<close> exactly when \<open>p\<close> carries the
  marker and no payload after it in arrival order does.
\<close>

theorem C6_full_screen_selector:
  "(FullScreenCustomComponents v = None \<longleftrightarrow> \<not> list_ex is_marker (ui_or_empty v))
   \<and> (\<forall>pre p post. sv_ui v = Some (pre @ p # post) \<and> is_marker p \<and> \<not> list_ex is_marker post
         \<longrightarrow> FullScreenCustomComponents v = Some p)
   \<and> (\<forall>p. FullScreenCustomComponents v = Some p \<longrightarrow>
         (\<exists>pre post. sv_ui v = Some (pre @ p # post) \<and> is_marker p \<and> \<not> list_ex is_marker post))"
proof (intro conjI allI impI)
  show "FullScreenCustomComponents v = None \<longleftrightarrow> \<not> list_ex is_marker (ui_or_empty v)"
    by (simp add: selector_last filter_empty_conv list_ex_iff)
next
  fix pre p post
  assume "sv_ui v = Some (pre @ p # post) \<and> is_marker p \<and> \<not> list_ex is_marker post"
  then have "ui_or_empty v = pre @ p # post" "is_marker p" "filter is_marker post = []"
    by (simp_all add: ui_or_empty_def filter_empty_conv list_ex_iff)
  then show "FullScreenCustomComponents v = Some p"
    by (simp add: selector_last)
next
  fix p
  assume sel: "FullScreenCustomComponents v = Some p"
  then have ne: "filter is_marker (ui_or_empty v) \<noteq> []"
    and p: "p = last (filter is_marker (ui_or_empty v))"
    by (auto simp: selector_last split: if_splits)
  from last_filter_split [OF ne] p obtain pre post where
    "ui_or_empty v = pre @ p # post" "is_marker p" "\<not> list_ex is_marker post"
    by blast
  moreover from ne have "sv_ui v = Some (ui_or_empty v)"
    by (auto simp: ui_or_empty_def split: option.splits)
  ultimately show "\<exists>pre post. sv_ui v = Some (pre @ p # post) \<and> is_marker p \<and> \<not> list_ex is_marker post"
    by auto
qed

text \<open>
  Spec property P5: of the marker payloads A then B, B is selected; without a marker
  payload, null.
\<close>

theorem C6_full_screen_selector_witness:
  "sv_ui (ex_values [ui_A, ui_other, ui_B, ui_other]) = Some ([ui_A, ui_other] @ ui_B # [ui_other])
   \<and> is_marker ui_A \<and> is_marker ui_B \<and> \<not> list_ex is_marker [ui_other]
   \<and> FullScreenCustomComponents (ex_values [ui_A, ui_other, ui_B, ui_other]) = Some ui_B
   \<and> \<not> list_ex is_marker (ui_or_empty (ex_values [ui_other]))
   \<and> FullScreenCustomComponents (ex_values [ui_other]) = None
   \<and> FullScreenCustomComponents (ex_values []) = None
   \<and> FullScreenCustomComponents ex_prev = None"
  using C6_full_screen_selector [of "ex_values [ui_A, ui_other, ui_B, ui_other]"]
    C6_full_screen_selector [of "ex_values [ui_other]"]
    C6_full_screen_selector [of "ex_values []"]
    C6_full_screen_selector [of ex_prev]
  by (simp add: ex_defs is_marker_def ui_or_empty_def FullScreenCustomComponents_def)

section \<open>First token\<close>



















section \<open>Rounding\<close>

lemma bits_0: "bits 0 = 0"
  by (simp add: bits.simps)

lemma bits_pos: "n \<noteq> 0 \<Longrightarrow> 0 < bits n"
  by (subst bits.simps) simp

lemma bits_upper: "n < 2 ^ bits n"
proof (induction n rule: bits.induct)
  case (1 n)
  show ?case
  proof (cases "n = 0")
    case True
    then show ?thesis by (simp add: bits.simps)
  next
    case False
    with 1 have "n div 2 < 2 ^ bits (n div 2)" by simp
    then have "n < 2 * 2 ^ bits (n div 2)" by linarith
    moreover from False have "bits n = Suc (bits (n div 2))" by (subst bits.simps) simp
    ultimately show ?thesis by simp
  qed
qed

lemma bits_lower: "0 < n \<Longrightarrow> 2 ^ (bits n - 1) \<le> n"
proof (induction n rule: bits.induct)
  case (1 n)
  then have n: "n \<noteq> 0" by simp
  then have b: "bits n = Suc (bits (n div 2))" by (subst bits.simps) simp
  show ?case
  proof (cases "n div 2 = 0")
    case True
    then have "bits (n div 2) = 0" by (simp add: bits.simps)
    with b n show ?thesis by simp
  next
    case False
    with 1 n have ih: "2 ^ (bits (n div 2) - 1) \<le> n div 2" by simp
    from False have "bits (n div 2) = Suc (bits (n div 2) - 1)"
      using bits_pos [of "n div 2"] by simp
    then have "(2::nat) ^ bits (n div 2) = 2 * 2 ^ (bits (n div 2) - 1)"
      by (metis power_Suc)
    with ih have "(2::nat) ^ bits (n div 2) \<le> n" by linarith
    with b show ?thesis by simp
  qed
qed

lemma bits_le: "n < 2 ^ j \<Longrightarrow> bits n \<le> j"
proof (rule ccontr)
  assume lt: "n < 2 ^ j" and "\<not> bits n \<le> j"
  then have j: "j \<le> bits n - 1" and pos: "0 < n"
    by (auto intro: gr0I simp: bits_0)
  from j have "(2::nat) ^ j \<le> 2 ^ (bits n - 1)" by (rule power_increasing) simp
  also from pos have "\<dots> \<le> n" by (rule bits_lower)
  finally show False using lt by simp
qed

lemma round_shift_lower: "M div 2 ^ k \<le> round_shift M k"
  by (simp add: round_shift_def Let_def)

lemma round_shift_upper: "round_shift M k \<le> M div 2 ^ k + 1"
  by (simp add: round_shift_def Let_def)

lemma round_shift_down: "2 * (M mod 2 ^ k) < 2 ^ k \<Longrightarrow> round_shift M k = M div 2 ^ k"
  by (simp add: round_shift_def Let_def)

section \<open>Lucky prompt\<close>

lemma length_luckyPrompts: "length luckyPrompts = 20"
  by (simp add: luckyPrompts_def)

text \<open>The rounded product with 20, for a number below 1 with a negative exponent.\<close>

lemma round_times_20:
  assumes mn: "m < 2 ^ n" and n0: "0 < n" and m53: "m < 2 ^ 53"
    and k: "k = bits (m * 20) - 53"
  shows "k < n \<and> round_shift (m * 20) k < 20 * 2 ^ (n - k)"
proof -
  let ?M = "m * 20"
  have "?M < 2 ^ 53 * 2 ^ 5" using m53 by simp
  then have "?M < 2 ^ 58" by simp
  then have "bits ?M \<le> 58" by (rule bits_le)
  then have k5: "k \<le> 5" using k by simp
  have "?M < 2 ^ n * 2 ^ 5" using mn by simp
  then have "?M < 2 ^ (n + 5)" by (simp add: power_add)
  then have bn: "bits ?M \<le> n + 5" by (rule bits_le)
  have kn: "k < n"
  proof (cases "k = 0")
    case True
    then show ?thesis using n0 by simp
  next
    case False
    then show ?thesis using k bn by simp
  qed
  define n' where "n' = n - k"
  have n: "n = k + n'" using kn by (simp add: n'_def)
  define q where "q = ?M div 2 ^ k"
  have Mlt: "?M < (20 * 2 ^ n') * 2 ^ k"
    using mn by (simp add: n power_add mult.commute)
  then have qlt: "q < 20 * 2 ^ n'"
    unfolding q_def by (simp add: less_mult_imp_div_less)
  have "round_shift ?M k < 20 * 2 ^ n'"
  proof (cases "q + 1 < 20 * 2 ^ n'")
    case True
    then show ?thesis
      using round_shift_upper [of ?M k] by (simp add: q_def)
  next
    case False
    with qlt have q: "q + 1 = 20 * 2 ^ n'" by simp
    have split: "?M = q * 2 ^ k + ?M mod 2 ^ k"
      unfolding q_def by (rule div_mult_mod_eq [symmetric])
    have "m + 1 \<le> 2 ^ n" using mn by simp
    then have "(m + 1) * 20 \<le> 2 ^ n * 20" by (rule mult_le_mono1)
    moreover have "(2::nat) ^ n * 20 = (q + 1) * 2 ^ k"
      unfolding q n by (simp add: power_add)
    moreover have "?M + 20 = (m + 1) * 20" by simp
    ultimately have "?M + 20 \<le> (q + 1) * 2 ^ k" by (simp only:)
    then have "?M + 20 \<le> q * 2 ^ k + 2 ^ k" by (simp add: algebra_simps)
    with split have r: "?M mod 2 ^ k + 20 \<le> 2 ^ k" by linarith
    have "(2::nat) ^ k \<le> 2 ^ 5" using k5 by (rule power_increasing) simp
    then have "(2::nat) ^ k \<le> 32" by simp
    with r have "2 * (?M mod 2 ^ k) < 2 ^ k" by linarith
    then have "round_shift ?M k = q"
      unfolding q_def by (rule round_shift_down)
    with qlt show ?thesis by simp
  qed
  with kn show ?thesis by (simp add: n'_def)
qed

lemma lucky_draw:
  assumes d: "is_double d" and lt: "dval d < 1"
  shows "\<exists>i. luckyIndex d = Some i \<and> 0 \<le> i \<and> i < 20
            \<and> \<lfloor>20 * dval d\<rfloor> \<le> i \<and> i \<le> \<lfloor>20 * dval d\<rfloor> + 1"
proof (cases "0 \<le> expo d")
  case True
  then have "dval d = real (mant d) * 2 ^ nat (expo d)" by (simp add: dval_def)
  with lt have "real (mant d * 2 ^ nat (expo d)) < 1" by simp
  then have "mant d * 2 ^ nat (expo d) = 0" by linarith
  then have m0: "mant d = 0" by simp
  have "luckyIndex d = Some 0"
    using True m0
    by (simp add: luckyIndex_def fl_mul_def fl_round_def number_of_nat_def round_shift_def
          Let_def fl_floor_def dval_def bits.simps)
  moreover have "dval d = 0" using True m0 by (simp add: dval_def)
  ultimately show ?thesis by simp
next
  case False
  define n where "n = nat (- expo d)"
  define m where "m = mant d"
  have e: "expo d = - int n" and n0: "0 < n" using False by (simp_all add: n_def)
  have dv: "dval d = real m / 2 ^ n" using False by (simp add: dval_def n_def m_def)
  have mn: "m < 2 ^ n"
  proof -
    from lt dv have "real m < 2 ^ n" by (simp add: field_simps)
    then have "real m < real (2 ^ n)" by simp
    then show ?thesis by linarith
  qed
  have m53: "m < 2 ^ 53" using d by (simp add: is_double_def m_def)
  have e1074: "- 1074 \<le> expo d" using d by (simp add: is_double_def)
  define M where "M = m * 20"
  define k where "k = bits M - 53"
  have kmax: "max (bits M - 53) (nat (- 1074 - expo d)) = k"
    using e1074 by (simp add: k_def)
  from round_times_20 [OF mn n0 m53, of k] have kn: "k < n"
    and Mlt: "round_shift M k < 20 * 2 ^ (n - k)"
    by (simp_all add: k_def M_def)
  define n' where "n' = n - k"
  have n: "n = k + n'" and n'0: "0 < n'" using kn by (simp_all add: n'_def)
  define M' where "M' = round_shift M k"
  have M'lt: "M' < 20 * 2 ^ n'" using Mlt by (simp add: M'_def n'_def)
  define dd where "dd = (if M' = 2 ^ 53 then \<lparr>mant = 2 ^ 52, expo = expo d + int k + 1\<rparr>
               else \<lparr>mant = M', expo = expo d + int k\<rparr>)"
  have e': "expo d + int k = - int n'" using e n by simp
  have ddv: "dval dd = real M' / 2 ^ n'"
  proof (cases "M' = 2 ^ 53")
    case True
    obtain j where j: "n' = Suc j" using n'0 by (cases n') auto
    show ?thesis
    proof (cases "j = 0")
      case True
      with \<open>M' = 2 ^ 53\<close> j show ?thesis by (simp add: dd_def e' dval_def)
    next
      case False
      with \<open>M' = 2 ^ 53\<close> j show ?thesis
        by (simp add: dd_def e' dval_def nat_diff_distrib')
    qed
  next
    case False
    then show ?thesis using n'0 by (simp add: dd_def e' dval_def)
  qed
  have ddf: "fl_floor dd = int (M' div 2 ^ n')"
  proof (cases "M' = 2 ^ 53")
    case True
    obtain j where j: "n' = Suc j" using n'0 by (cases n') auto
    have half: "(2::nat) ^ 53 div 2 ^ Suc j = 2 ^ 52 div 2 ^ j"
    proof -
      have "(2::nat) ^ 53 = 2 * 2 ^ 52" by simp
      then have "(2::nat) ^ 53 div 2 ^ Suc j = (2 * 2 ^ 52) div (2 * 2 ^ j)" by simp
      also have "\<dots> = 2 ^ 52 div 2 ^ j" by (rule div_mult_mult1) simp
      finally show ?thesis .
    qed
    show ?thesis
    proof (cases "j = 0")
      case True
      with \<open>M' = 2 ^ 53\<close> j show ?thesis by (simp add: dd_def e' fl_floor_def)
    next
      case False
      with \<open>M' = 2 ^ 53\<close> j half show ?thesis
        by (simp add: dd_def e' fl_floor_def nat_diff_distrib')
    qed
  next
    case False
    then show ?thesis using n'0 by (simp add: dd_def e' fl_floor_def)
  qed
  have "real M' < real (20 * 2 ^ n')" using M'lt by (simp only: of_nat_less_iff)
  then have "dval dd < 20" by (simp add: ddv field_simps)
  then have fin: "\<not> 2 ^ 1024 \<le> dval dd" by simp
  have "fl_round M (expo d) = (if 2 ^ 1024 \<le> dval dd then None else Some dd)"
    by (simp only: fl_round_def Let_def kmax M'_def dd_def)
  with fin have rnd: "fl_round M (expo d) = Some dd" by (simp only: if_False)
  have mul: "fl_mul d (number_of_nat (length luckyPrompts)) = Some dd"
    by (simp add: fl_mul_def number_of_nat_def length_luckyPrompts M_def [symmetric]
          m_def [symmetric] rnd)
  define i where "i = int (M' div 2 ^ n')"
  have idx: "luckyIndex d = Some i"
    by (simp add: luckyIndex_def mul ddf i_def)
  have "M' div 2 ^ n' < 20" using M'lt by (simp add: less_mult_imp_div_less)
  then have i20: "i < 20" by (simp add: i_def)
  have i0: "0 \<le> i" by (simp add: i_def)
  define q where "q = M div 2 ^ k"
  have "20 * dval d = real M / real (2 ^ n)" by (simp add: dv M_def)
  then have "\<lfloor>20 * dval d\<rfloor> = int (M div 2 ^ n)"
    by (simp only: floor_divide_of_nat_eq)
  also have "M div 2 ^ n = q div 2 ^ n'"
    by (simp add: n power_add div_mult2_eq q_def)
  finally have fl: "\<lfloor>20 * dval d\<rfloor> = int (q div 2 ^ n')" .
  have "q \<le> M'" unfolding q_def M'_def by (rule round_shift_lower)
  then have "q div 2 ^ n' \<le> M' div 2 ^ n'" by (rule div_le_mono)
  then have lo: "\<lfloor>20 * dval d\<rfloor> \<le> i" by (simp add: fl i_def)
  have "M' \<le> q + 1" unfolding q_def M'_def by (rule round_shift_upper)
  then have "M' div 2 ^ n' \<le> (q + 1) div 2 ^ n'" by (rule div_le_mono)
  also have "\<dots> \<le> (q + 2 ^ n') div 2 ^ n'" by (rule div_le_mono) simp
  also have "\<dots> = q div 2 ^ n' + 1" by simp
  finally have hi: "i \<le> \<lfloor>20 * dval d\<rfloor> + 1" by (simp add: fl i_def)
  from idx i0 i20 lo hi show ?thesis by blast
qed

lemma lucky_exact:
  assumes small: "m * 20 < 2 ^ 53" and n0: "0 < n" and n1074: "n \<le> 1074"
  shows "luckyIndex \<lparr>mant = m, expo = - int n\<rparr> = Some (int (m * 20 div 2 ^ n))"
proof -
  let ?M = "m * 20"
  from small have "bits ?M \<le> 53" by (rule bits_le)
  then have k: "max (bits ?M - 53) (nat (- 1074 - (- int n))) = 0" using n1074 by simp
  have r0: "round_shift ?M 0 = ?M" by (simp add: round_shift_def)
  have ne: "?M \<noteq> 2 ^ 53" using small by simp
  have "real ?M / 2 ^ n \<le> real ?M" by (simp add: field_simps mult_le_cancel_left1)
  also have "real ?M < real (2 ^ 53)" using small by (simp only: of_nat_less_iff)
  finally have "real ?M / 2 ^ n < 2 ^ 1024" by simp
  then have fin: "\<not> 2 ^ 1024 \<le> dval \<lparr>mant = ?M, expo = - int n\<rparr>"
    using n0 by (simp add: dval_def)
  have "fl_round ?M (- int n) = (if 2 ^ 1024 \<le> dval \<lparr>mant = ?M, expo = - int n\<rparr> then None
          else Some \<lparr>mant = ?M, expo = - int n\<rparr>)"
    using ne by (simp only: fl_round_def Let_def k r0 if_False of_nat_0 add_0_right)
  with fin have "fl_round ?M (- int n) = Some \<lparr>mant = ?M, expo = - int n\<rparr>"
    by (simp only: if_False)
  then show ?thesis
    using n0 by (simp add: luckyIndex_def fl_mul_def number_of_nat_def length_luckyPrompts fl_floor_def)
qed

lemma every_prompt_drawn:
  assumes j: "j < 20"
  shows "is_double \<lparr>mant = (16 * j + 4) div 5, expo = - 6\<rparr>
       \<and> dval \<lparr>mant = (16 * j + 4) div 5, expo = - 6\<rparr> < 1
       \<and> luckyIndex \<lparr>mant = (16 * j + 4) div 5, expo = - 6\<rparr> = Some (int j)"
proof -
  let ?m = "(16 * j + 4) div 5"
  have m: "?m < 64" using j by simp
  have idx: "?m * 20 div 64 = j"
  proof (rule div_nat_eqI)
    show "64 * j \<le> ?m * 20" by linarith
    have "?m * 20 \<le> 64 * j + 16" by linarith
    then show "?m * 20 < 64 * Suc j" by simp
  qed
  have "?m * 20 < 2 ^ 53" using m by simp
  from lucky_exact [OF this, of 6] idx
  have "luckyIndex \<lparr>mant = ?m, expo = - 6\<rparr> = Some (int j)" by simp
  moreover have "dval \<lparr>mant = ?m, expo = - 6\<rparr> < 1" using m by (simp add: dval_def)
  moreover from this have "is_double \<lparr>mant = ?m, expo = - 6\<rparr>"
    using m by (simp add: is_double_def)
  ultimately show ?thesis by simp
qed

text \<open>
  Claim C10. The list has 20 prompts. \<open>handleLuckyClick\<close> does nothing while loading.
  Otherwise, for every number \<open>Math.random()\<close> can return (a double from 0 up to, not
  including, 1), the drawn index is the floor of the rounded product, at most one above
  the floor of the exact product and below 20; the handler resets the first-token flag and
  submits a human message whose content is the prompt at that index, and leaves the input
  as it was, where \<open>handleSubmit\<close> clears it. Every prompt of the list is drawn by some number.
\<close>

theorem C10_lucky_click:
  "length luckyPrompts = 20
   \<and> (isLoading s \<longrightarrow> handleLuckyClick rt random s st = (st, None))
   \<and> (\<not> isLoading s \<and> is_double random \<and> dval random < 1 \<longrightarrow>
        (\<exists>i. luckyIndex random = Some i \<and> 0 \<le> i \<and> i < 20
             \<and> \<lfloor>20 * dval random\<rfloor> \<le> i \<and> i \<le> \<lfloor>20 * dval random\<rfloor> + 1
             \<and> js_index luckyPrompts i = Some (luckyPrompts ! nat i)
             \<and> luckyPrompts ! nat i \<in> set luckyPrompts
             \<and> handleLuckyClick rt random s st =
                 (st\<lparr>firstTokenReceived := False\<rparr>,
                  Some (submitTurn rt s st
                    \<lparr>msg_id = uuidv4 rt 0, msg_type = Human,
                     msg_content = Str (luckyPrompts ! nat i),
                     tool_calls = [], tool_call_id = None\<rparr>)))
        \<and> input (fst (handleLuckyClick rt random s st)) = input st)
   \<and> (\<forall>j < 20. \<exists>r. is_double r \<and> dval r < 1 \<and> luckyIndex r = Some (int j))
   \<and> (\<not> isLoading s \<and> trim (input st) \<noteq> [] \<longrightarrow> input (fst (handleSubmit rt s st)) = [])"
proof (intro conjI impI allI)
  show "length luckyPrompts = 20" by (rule length_luckyPrompts)
next
  assume "isLoading s"
  then show "handleLuckyClick rt random s st = (st, None)"
    by (simp add: handleLuckyClick_def)
next
  assume a: "\<not> isLoading s \<and> is_double random \<and> dval random < 1"
  then obtain i where i: "luckyIndex random = Some i" "0 \<le> i" "i < 20"
    "\<lfloor>20 * dval random\<rfloor> \<le> i" "i \<le> \<lfloor>20 * dval random\<rfloor> + 1"
    using lucky_draw [of random] by blast
  from i have nat: "nat i < length luckyPrompts" by (simp add: length_luckyPrompts)
  then have mem: "luckyPrompts ! nat i \<in> set luckyPrompts" by (rule nth_mem)
  from i have js: "js_index luckyPrompts i = Some (luckyPrompts ! nat i)"
    by (simp add: js_index_def length_luckyPrompts)
  have run: "handleLuckyClick rt random s st =
                 (st\<lparr>firstTokenReceived := False\<rparr>,
                  Some (submitTurn rt s st
                    \<lparr>msg_id = uuidv4 rt 0, msg_type = Human,
                     msg_content = Str (luckyPrompts ! nat i),
                     tool_calls = [], tool_call_id = None\<rparr>))"
    using a i(1) js by (simp add: handleLuckyClick_def Let_def)
  from i js mem run show "\<exists>i. luckyIndex random = Some i \<and> 0 \<le> i \<and> i < 20
             \<and> \<lfloor>20 * dval random\<rfloor> \<le> i \<and> i \<le> \<lfloor>20 * dval random\<rfloor> + 1
             \<and> js_index luckyPrompts i = Some (luckyPrompts ! nat i)
             \<and> luckyPrompts ! nat i \<in> set luckyPrompts
             \<and> handleLuckyClick rt random s st =
                 (st\<lparr>firstTokenReceived := False\<rparr>,
                  Some (submitTurn rt s st
                    \<lparr>msg_id = uuidv4 rt 0, msg_type = Human,
                     msg_content = Str (luckyPrompts ! nat i),
                     tool_calls = [], tool_call_id = None\<rparr>))"
    by blast
  from a show "input (fst (handleLuckyClick rt random s st)) = input st"
    by (simp add: handleLuckyClick_def Let_def)
next
  fix j :: nat
  assume "j < 20"
  from every_prompt_drawn [OF this]
  show "\<exists>r. is_double r \<and> dval r < 1 \<and> luckyIndex r = Some (int j)" by blast
next
  assume "\<not> isLoading s \<and> trim (input st) \<noteq> []"
  then show "input (fst (handleSubmit rt s st)) = []"
    by (simp add: handleSubmit_def Let_def)
qed

text \<open>
  The double nearest to 0.7: the exact product with 20 lies below 14, the rounded product
  is 14, and the prompt at index 14 is submitted.
\<close>

theorem C10_lucky_click_witness:
  "isLoading ((ex_stream [])\<lparr>isLoading := True\<rparr>)
   \<and> handleLuckyClick ex_rt d07 ((ex_stream [])\<lparr>isLoading := True\<rparr>) (init_state\<lparr>input := ''draft''\<rparr>)
       = (init_state\<lparr>input := ''draft''\<rparr>, None)
   \<and> \<not> isLoading (ex_stream []) \<and> is_double d07 \<and> dval d07 < 1
   \<and> trim (input (init_state\<lparr>input := ''draft''\<rparr>)) \<noteq> []
   \<and> \<lfloor>20 * dval d07\<rfloor> = 13
   \<and> luckyIndex d07 = Some 14
   \<and> luckyPrompts ! 14 = ''Design a food delivery app interface''
   \<and> dispatched (handleLuckyClick ex_rt d07 (ex_stream []) (init_state\<lparr>input := ''draft''\<rparr>))
       = [human_msg ''Design a food delivery app interface'']
   \<and> input (fst (handleLuckyClick ex_rt d07 (ex_stream []) (init_state\<lparr>input := ''draft''\<rparr>))) = ''draft''
   \<and> input (fst (handleSubmit ex_rt (ex_stream []) (init_state\<lparr>input := ''draft''\<rparr>))) = []"
proof -
  have dbl: "is_double d07 \<and> dval d07 < 1"
    by (simp add: d07_def is_double_def dval_def)
  have fl: "\<lfloor>20 * dval d07\<rfloor> = 13"
    by (simp add: d07_def dval_def floor_eq_iff)
  have idx: "luckyIndex d07 = Some 14"
    by (simp add: d07_def num_defs Let_def)
  have p: "luckyPrompts ! 14 = ''Design a food delivery app interface''"
    by (simp add: luckyPrompts_def)
  have tr: "trim ''draft'' \<noteq> []"
    by (simp add: trim_def is_whitespace_def)
  have ld: "\<not> isLoading (ex_stream [])" "isLoading ((ex_stream [])\<lparr>isLoading := True\<rparr>)"
    by (simp_all add: ex_stream_def)
  have msgs: "ensureToolCallsHaveResponses ex_rt (messages (ex_stream [])) = []"
    by (simp add: ex_stream_def ensureToolCallsHaveResponses_def)
  have h: "human_msg ''Design a food delivery app interface''
             = \<lparr>msg_id = uuidv4 ex_rt 0, msg_type = Human,
                msg_content = Str (luckyPrompts ! nat 14), tool_calls = [], tool_call_id = None\<rparr>"
    by (simp add: human_msg_def ex_rt_def p)
  show ?thesis
    using C10_lucky_click [of "(ex_stream [])\<lparr>isLoading := True\<rparr>" ex_rt d07 "init_state\<lparr>input := ''draft''\<rparr>"]
      C10_lucky_click [of "ex_stream []" ex_rt d07 "init_state\<lparr>input := ''draft''\<rparr>"]
      dbl fl idx p tr ld msgs h
    by (simp add: dispatched_def submitTurn_messages)
qed

end
